theory Spec2Isabelle
  imports Complex_Main
begin

section \<open>PocketDB: the store engine of pocketdb.py\<close>

text \<open>
  The engine of \<^verbatim>\<open>src/pocketdb.py\<close> as HOL functions. Every method of the class
  \<^verbatim>\<open>PocketDB\<close> takes the store and returns the outcome of the call (the exception raised,
  or the value returned) paired with the store as the call leaves it: a Python exception
  does not undo the assignments made before it, so the store after a raise is part of
  the model.

  What the model fixes:
  \<^item> a Python \<^verbatim>\<open>dict\<close> is an association list in insertion order (what
    \<^verbatim>\<open>.items()\<close>, \<^verbatim>\<open>.keys()\<close> and \<^verbatim>\<open>.values()\<close> enumerate); a real dict has distinct keys,
    which \<open>wf_store\<close> states;
  \<^item> \<^verbatim>\<open>time.time()\<close> is an argument of the call that reads it (\<open>set\<close> reads the clock
    twice: once in the prune, once for the expiry); instants are real numbers, the
    rounding of floating-point addition is left out;
  \<^item> a Python \<^verbatim>\<open>str\<close> is a \<open>string\<close>, each \<open>char\<close> standing for the code point of the
    same number (code points below 256);
  \<^item> \<^verbatim>\<open>fnmatch.fnmatch\<close> belongs to the Python library, not to this repository: it is a
    parameter of \<open>keys\<close>;
  \<^item> the lock and the auto-save thread are left out: each call runs alone.
\<close>

subsection \<open>Python values\<close>

text \<open>
  The values a caller can pass: \<^verbatim>\<open>None\<close>, booleans, integers, floats, strings, lists,
  dicts, and \<open>PObject\<close> for any other object (a function, a set, an open file), which
  \<^verbatim>\<open>json.dumps\<close> rejects.
\<close>

datatype pyval =
    PNone
  | PBool bool
  | PInt int
  | PFloat real
  | PStr string
  | PList "pyval list"
  | PDict "(pyval \<times> pyval) list"
  | PObject nat

datatype error =
    InvalidKey
  | InvalidValue
  | KeyNotFound
  | DiskError
  | KeyError
  | OverflowError

text \<open>\<^verbatim>\<open>isinstance(x, int)\<close>: an \<^verbatim>\<open>int\<close>, or a \<^verbatim>\<open>bool\<close> (a subclass of \<^verbatim>\<open>int\<close>: \<^verbatim>\<open>True\<close> is 1).\<close>

fun as_int :: "pyval \<Rightarrow> int option" where
  "as_int (PInt n) = Some n"
| "as_int (PBool b) = Some (if b then 1 else 0)"
| "as_int _ = None"

text \<open>
  \<^verbatim>\<open>json.dumps(value)\<close> returns for the JSON types and raises \<^verbatim>\<open>TypeError\<close> for anything
  else; the keys of a dict must be \<^verbatim>\<open>str\<close>, \<^verbatim>\<open>int\<close>, \<^verbatim>\<open>float\<close>, \<^verbatim>\<open>bool\<close> or \<^verbatim>\<open>None\<close>.
  The datatype has no cyclic values, and nesting too deep for the encoder's recursion
  is not modelled.
\<close>

fun json_key :: "pyval \<Rightarrow> bool" where
  "json_key PNone = True"
| "json_key (PBool _) = True"
| "json_key (PInt _) = True"
| "json_key (PFloat _) = True"
| "json_key (PStr _) = True"
| "json_key _ = False"

fun json_dumps_ok :: "pyval \<Rightarrow> bool" where
  "json_dumps_ok PNone = True"
| "json_dumps_ok (PBool _) = True"
| "json_dumps_ok (PInt _) = True"
| "json_dumps_ok (PFloat _) = True"
| "json_dumps_ok (PStr _) = True"
| "json_dumps_ok (PList xs) = list_all json_dumps_ok xs"
| "json_dumps_ok (PDict kvs) = list_all (\<lambda>kv. json_key (fst kv) \<and> json_dumps_ok (snd kv)) kvs"
| "json_dumps_ok (PObject _) = False"

subsection \<open>Dictionaries\<close>

type_synonym ('k, 'v) dict = "('k \<times> 'v) list"

text \<open>\<^verbatim>\<open>key in d\<close>\<close>

definition dict_has :: "'k \<Rightarrow> ('k, 'v) dict \<Rightarrow> bool" where
  "dict_has k d = (k \<in> fst ` set d)"

text \<open>\<^verbatim>\<open>d[key] = value\<close>: an existing key keeps its place, a new key goes last.\<close>

fun dict_set :: "'k \<Rightarrow> 'v \<Rightarrow> ('k, 'v) dict \<Rightarrow> ('k, 'v) dict" where
  "dict_set k v [] = [(k, v)]"
| "dict_set k v (p # d) = (if fst p = k then (k, v) # d else p # dict_set k v d)"

text \<open>\<^verbatim>\<open>del d[key]\<close>, for a key that is there (the callers test \<open>dict_has\<close> first).\<close>

definition dict_del :: "'k \<Rightarrow> ('k, 'v) dict \<Rightarrow> ('k, 'v) dict" where
  "dict_del k d = filter (\<lambda>p. fst p \<noteq> k) d"

subsection \<open>The store\<close>

record statistics =
  gets :: int
  sets :: int
  deletes :: int
  hits :: int
  misses :: int
  expired :: int

record store =
  db_name :: string
  db_data :: "(string, pyval) dict"
  db_ttl :: "(string, real) dict"
  db_stats :: statistics
  db_is_running :: bool

text \<open>\<^verbatim>\<open>__init__\<close> (the auto-save thread it starts is not modelled).\<close>

definition init :: "string \<Rightarrow> store" where
  "init name =
     \<lparr>db_name = name, db_data = [], db_ttl = [],
      db_stats = \<lparr>gets = 0, sets = 0, deletes = 0, hits = 0, misses = 0, expired = 0\<rparr>,
      db_is_running = True\<rparr>"

definition default_filename :: "store \<Rightarrow> string" where
  "default_filename s = db_name s @ ''.pdb''"

subsection \<open>Validation\<close>

text \<open>
  \<^verbatim>\<open>str.strip()\<close> removes leading and trailing whitespace; below code point 256 the
  whitespace characters are 9 to 13, 28 to 32, 133 and 160.
\<close>

definition py_isspace :: "char \<Rightarrow> bool" where
  "py_isspace c = (let n = (of_char c :: nat) in
     (9 \<le> n \<and> n \<le> 13) \<or> (28 \<le> n \<and> n \<le> 32) \<or> n = 133 \<or> n = 160)"

definition strip :: "string \<Rightarrow> string" where
  "strip s = rev (dropWhile py_isspace (rev (dropWhile py_isspace s)))"

text \<open>
  \<^verbatim>\<open>_validate_key\<close>: raises \<^verbatim>\<open>PocketDBInvalidKeyError\<close> unless the key is a \<^verbatim>\<open>str\<close> that
  is not empty once stripped. The model hands the string back on success.
\<close>

fun validate_key :: "pyval \<Rightarrow> error + string" where
  "validate_key (PStr k) = (if strip k = [] then Inl InvalidKey else Inr k)"
| "validate_key _ = Inl InvalidKey"

definition validate_value :: "pyval \<Rightarrow> error + unit" where
  "validate_value v = (if json_dumps_ok v then Inr () else Inl InvalidValue)"

subsection \<open>Lazy expiration\<close>

text \<open>The first loop of \<^verbatim>\<open>_prune_expired\<close>: the keys whose expiry the clock has passed.\<close>

definition expired_keys :: "real \<Rightarrow> (string, real) dict \<Rightarrow> string list" where
  "expired_keys system_time t = map fst (filter (\<lambda>p. system_time > snd p) t)"

definition count_expired :: "statistics \<Rightarrow> statistics" where
  "count_expired st = st\<lparr>expired := expired st + 1\<rparr>"

text \<open>
  The second loop: \<^verbatim>\<open>del self._data[key]\<close>, \<^verbatim>\<open>del self._ttl[key]\<close>, count. A \<^verbatim>\<open>del\<close> of a
  key that is not there raises \<^verbatim>\<open>KeyError\<close> and leaves the loop where it stands.
\<close>

fun prune_loop :: "string list \<Rightarrow> store \<Rightarrow> (error + unit) \<times> store" where
  "prune_loop [] s = (Inr (), s)"
| "prune_loop (key # ks) s =
     (if \<not> dict_has key (db_data s) then (Inl KeyError, s)
      else let s1 = s\<lparr>db_data := dict_del key (db_data s)\<rparr> in
        if \<not> dict_has key (db_ttl s1) then (Inl KeyError, s1)
        else prune_loop ks
               (s1\<lparr>db_ttl := dict_del key (db_ttl s1),
                   db_stats := count_expired (db_stats s1)\<rparr>))"

definition prune_expired :: "real \<Rightarrow> store \<Rightarrow> (error + unit) \<times> store" where
  "prune_expired system_time s = prune_loop (expired_keys system_time (db_ttl s)) s"

subsection \<open>Core operations\<close>

text \<open>
  \<^verbatim>\<open>time.time() + ttl\<close> converts the integer to a float first; CPython raises
  \<^verbatim>\<open>OverflowError\<close> for an integer that rounds beyond the largest double.
\<close>

definition float_overflow :: "int \<Rightarrow> bool" where
  "float_overflow n = (n \<ge> 2 ^ 1024 - 2 ^ 970)"

text \<open>
  \<^verbatim>\<open>set\<close>: both validations, the prune (clock reading \<open>now\<close>), the write of the value, and
  only then the look at \<open>ttl\<close> (clock reading \<open>now2\<close> for the expiry).
\<close>

definition set_db ::
  "pyval \<Rightarrow> pyval \<Rightarrow> pyval \<Rightarrow> real \<Rightarrow> real \<Rightarrow> store \<Rightarrow> (error + bool) \<times> store" where
  "set_db key val ttl now now2 s =
     (case validate_key key of
        Inl e \<Rightarrow> (Inl e, s)
      | Inr k \<Rightarrow>
         (case validate_value val of
            Inl e \<Rightarrow> (Inl e, s)
          | Inr _ \<Rightarrow>
             (case prune_expired now s of
                (Inl e, s1) \<Rightarrow> (Inl e, s1)
              | (Inr _, s1) \<Rightarrow>
                 let s2 = s1\<lparr>db_data := dict_set k val (db_data s1)\<rparr> in
                 (case as_int ttl of
                    Some n \<Rightarrow>
                      if n \<le> 0 then (Inl InvalidValue, s2)
                      else if float_overflow n then (Inl OverflowError, s2)
                      else (Inr True, s2\<lparr>db_ttl := dict_set k (now2 + real_of_int n) (db_ttl s2)\<rparr>)
                  | None \<Rightarrow>
                      if dict_has k (db_ttl s2)
                      then (Inr True, s2\<lparr>db_ttl := dict_del k (db_ttl s2)\<rparr>)
                      else (Inr True, s2)))))"

definition count_hit :: "statistics \<Rightarrow> statistics" where
  "count_hit st = st\<lparr>gets := gets st + 1, hits := hits st + 1\<rparr>"

definition count_miss :: "statistics \<Rightarrow> statistics" where
  "count_miss st = st\<lparr>gets := gets st + 1, misses := misses st + 1\<rparr>"

text \<open>
  \<^verbatim>\<open>get\<close>: the parameter \<^verbatim>\<open>default_value\<close> defaults to \<^verbatim>\<open>None\<close>, so a call without a default
  is the call with \<open>PNone\<close>. The lookup \<open>map_of\<close> is \<^verbatim>\<open>key in self._data\<close> and
  \<^verbatim>\<open>self._data[key]\<close> in one.
\<close>

definition get :: "pyval \<Rightarrow> pyval \<Rightarrow> real \<Rightarrow> store \<Rightarrow> (error + pyval) \<times> store" where
  "get key default_value now s =
     (case validate_key key of
        Inl e \<Rightarrow> (Inl e, s)
      | Inr k \<Rightarrow>
         (case prune_expired now s of
            (Inl e, s1) \<Rightarrow> (Inl e, s1)
          | (Inr _, s1) \<Rightarrow>
             (case map_of (db_data s1) k of
                Some v \<Rightarrow> (Inr v, s1\<lparr>db_stats := count_hit (db_stats s1)\<rparr>)
              | None \<Rightarrow>
                 let s2 = s1\<lparr>db_stats := count_miss (db_stats s1)\<rparr> in
                 if default_value \<noteq> PNone then (Inr default_value, s2)
                 else (Inl KeyNotFound, s2))))"

definition delete :: "pyval \<Rightarrow> real \<Rightarrow> store \<Rightarrow> (error + bool) \<times> store" where
  "delete key now s =
     (case validate_key key of
        Inl e \<Rightarrow> (Inl e, s)
      | Inr k \<Rightarrow>
         (case prune_expired now s of
            (Inl e, s1) \<Rightarrow> (Inl e, s1)
          | (Inr _, s1) \<Rightarrow>
             if dict_has k (db_data s1) then
               let s2 = s1\<lparr>db_data := dict_del k (db_data s1)\<rparr>;
                   s3 = (if dict_has k (db_ttl s2)
                         then s2\<lparr>db_ttl := dict_del k (db_ttl s2)\<rparr> else s2)
               in (Inr True, s3\<lparr>db_stats := (db_stats s3)\<lparr>deletes := deletes (db_stats s3) + 1\<rparr>\<rparr>)
             else (Inr False, s1)))"

definition exists :: "pyval \<Rightarrow> real \<Rightarrow> store \<Rightarrow> (error + bool) \<times> store" where
  "exists key now s =
     (case validate_key key of
        Inl e \<Rightarrow> (Inl e, s)
      | Inr k \<Rightarrow>
         (case prune_expired now s of
            (Inl e, s1) \<Rightarrow> (Inl e, s1)
          | (Inr _, s1) \<Rightarrow> (Inr (dict_has k (db_data s1)), s1)))"

definition size_db :: "real \<Rightarrow> store \<Rightarrow> (error + int) \<times> store" where
  "size_db now s =
     (case prune_expired now s of
        (Inl e, s1) \<Rightarrow> (Inl e, s1)
      | (Inr _, s1) \<Rightarrow> (Inr (int (length (db_data s1))), s1))"

definition values_db :: "real \<Rightarrow> store \<Rightarrow> (error + pyval list) \<times> store" where
  "values_db now s =
     (case prune_expired now s of
        (Inl e, s1) \<Rightarrow> (Inl e, s1)
      | (Inr _, s1) \<Rightarrow> (Inr (map snd (db_data s1)), s1))"

text \<open>
  \<^verbatim>\<open>keys\<close>: the pattern \<^verbatim>\<open>"*"\<close> lists every key; a pattern with a \<^verbatim>\<open>*\<close> in it goes to
  \<^verbatim>\<open>fnmatch.fnmatch(key, pattern)\<close>; any other pattern is compared with \<^verbatim>\<open>==\<close>.
\<close>

definition keys ::
  "(string \<Rightarrow> string \<Rightarrow> bool) \<Rightarrow> string \<Rightarrow> real \<Rightarrow> store \<Rightarrow> (error + string list) \<times> store" where
  "keys fnmatch pattern now s =
     (case prune_expired now s of
        (Inl e, s1) \<Rightarrow> (Inl e, s1)
      | (Inr _, s1) \<Rightarrow>
         if pattern = ''*'' then (Inr (map fst (db_data s1)), s1)
         else if CHR ''*'' \<in> set pattern
         then (Inr (filter (\<lambda>key. fnmatch key pattern) (map fst (db_data s1))), s1)
         else (Inr (filter (\<lambda>key. key = pattern) (map fst (db_data s1))), s1))"

definition items :: "real \<Rightarrow> store \<Rightarrow> (error + (string \<times> pyval) list) \<times> store" where
  "items now s =
     (case prune_expired now s of
        (Inl e, s1) \<Rightarrow> (Inl e, s1)
      | (Inr _, s1) \<Rightarrow> (Inr (db_data s1), s1))"

text \<open>\<^verbatim>\<open>reset\<close> assigns two empty dicts and nothing else.\<close>

definition reset :: "store \<Rightarrow> store" where
  "reset s = s\<lparr>db_data := [], db_ttl := []\<rparr>"

record stats_report =
  r_size :: int
  r_ttl_keys :: int
  r_gets :: int
  r_sets :: int
  r_deletes :: int
  r_hits :: int
  r_misses :: int
  r_expired :: int
  r_hit_rate :: real

definition stats :: "real \<Rightarrow> store \<Rightarrow> (error + stats_report) \<times> store" where
  "stats now s =
     (case prune_expired now s of
        (Inl e, s1) \<Rightarrow> (Inl e, s1)
      | (Inr _, s1) \<Rightarrow>
         let st = db_stats s1;
             hit_rate = (if gets st > 0 then real_of_int (hits st) / real_of_int (gets st) else 0)
         in (Inr \<lparr>r_size = int (length (db_data s1)), r_ttl_keys = int (length (db_ttl s1)),
                  r_gets = gets st, r_sets = sets st, r_deletes = deletes st,
                  r_hits = hits st, r_misses = misses st, r_expired = expired st,
                  r_hit_rate = hit_rate\<rparr>, s1))"

subsection \<open>Persistence\<close>

text \<open>
  What a file holds, as \<^verbatim>\<open>pickle.load\<close> sees it: bytes it rejects (\<open>Corrupt\<close>), an
  object with no \<^verbatim>\<open>.get\<close> (\<open>NotADict\<close>), or a dict with a \<^verbatim>\<open>'data'\<close> dict and, each
  optional, a \<^verbatim>\<open>'ttl'\<close> dict and a \<^verbatim>\<open>'stats'\<close> dict of the six counters. Pickled dicts of
  other shapes (no \<^verbatim>\<open>'data'\<close>, fields of other types) are outside the model.
\<close>

datatype pickled =
    Corrupt
  | NotADict
  | Backup "(string, pyval) dict" "(string, real) dict option" "statistics option"

type_synonym disk = "string \<Rightarrow> pickled option"

text \<open>
  How the write of \<^verbatim>\<open>save_to_disk\<close> goes: it succeeds, \<^verbatim>\<open>open\<close> raises (nothing is
  written), or \<^verbatim>\<open>pickle.dump\<close> raises after \<^verbatim>\<open>open\<close> has truncated the file.
\<close>

datatype io = IoOk | OpenFails | DumpFails

definition save_to_disk ::
  "string option \<Rightarrow> io \<Rightarrow> real \<Rightarrow> store \<Rightarrow> disk \<Rightarrow> (error + bool) \<times> store \<times> disk" where
  "save_to_disk filename io now s dk =
     (let fname = (case filename of None \<Rightarrow> default_filename s | Some f \<Rightarrow> f) in
      case prune_expired now s of
        (Inl e, s1) \<Rightarrow> (Inl DiskError, s1, dk)
      | (Inr _, s1) \<Rightarrow>
         (case io of
            OpenFails \<Rightarrow> (Inl DiskError, s1, dk)
          | DumpFails \<Rightarrow> (Inl DiskError, s1, dk(fname \<mapsto> Corrupt))
          | IoOk \<Rightarrow>
              (Inr True, s1,
               dk(fname \<mapsto> Backup (db_data s1) (Some (db_ttl s1)) (Some (db_stats s1))))))"

text \<open>
  \<^verbatim>\<open>load_from_disk\<close>: the three assignments come before the prune, and every exception
  from any of these steps is turned into \<^verbatim>\<open>PocketDBDiskError\<close>.
\<close>

definition load_from_disk ::
  "string option \<Rightarrow> real \<Rightarrow> store \<Rightarrow> disk \<Rightarrow> (error + bool) \<times> store" where
  "load_from_disk filename now s dk =
     (let fname = (case filename of None \<Rightarrow> default_filename s | Some f \<Rightarrow> f) in
      case dk fname of
        None \<Rightarrow> (Inl DiskError, s)
      | Some Corrupt \<Rightarrow> (Inl DiskError, s)
      | Some NotADict \<Rightarrow> (Inl DiskError, s)
      | Some (Backup d t st) \<Rightarrow>
          let s1 = s\<lparr>db_data := d,
                     db_ttl := (case t of None \<Rightarrow> [] | Some t' \<Rightarrow> t'),
                     db_stats := (case st of None \<Rightarrow> db_stats s | Some st' \<Rightarrow> st')\<rparr>
          in (case prune_expired now s1 of
                (Inl e, s2) \<Rightarrow> (Inl DiskError, s2)
              | (Inr _, s2) \<Rightarrow> (Inr True, s2)))"

text \<open>\<^verbatim>\<open>quit\<close>: clears the running flag, then saves to the default file.\<close>

definition quit :: "io \<Rightarrow> real \<Rightarrow> store \<Rightarrow> disk \<Rightarrow> (error + unit) \<times> store \<times> disk" where
  "quit io now s dk =
     (case save_to_disk None io now (s\<lparr>db_is_running := False\<rparr>) dk of
        (Inl e, s1, dk1) \<Rightarrow> (Inl e, s1, dk1)
      | (Inr _, s1, dk1) \<Rightarrow> (Inr (), s1, dk1))"

subsection \<open>Calls and runs\<close>

text \<open>
  The public methods as one datatype, so that a caller's sequence of calls is a list.
  Each call comes with the clock readings it makes; an exception ends the call, not the
  run (the store stays as the raise left it).
\<close>

datatype call =
    Set pyval pyval pyval
  | Get pyval pyval
  | Delete pyval
  | Exists pyval
  | Size
  | Keys string
  | Values
  | Items
  | Reset
  | Stats
  | Save "string option" io
  | Load "string option"
  | Quit io

datatype result =
    RBool bool
  | RValue pyval
  | RInt int
  | RKeys "string list"
  | RValues "pyval list"
  | RItems "(string \<times> pyval) list"
  | RStats stats_report
  | RNone

definition ret :: "('a \<Rightarrow> result) \<Rightarrow> (error + 'a) \<times> store \<Rightarrow> disk \<Rightarrow> (error + result) \<times> store \<times> disk" where
  "ret f rs dk = (map_sum id f (fst rs), snd rs, dk)"

fun exec ::
  "(string \<Rightarrow> string \<Rightarrow> bool) \<Rightarrow> real \<Rightarrow> real \<Rightarrow> call \<Rightarrow> store \<Rightarrow> disk
     \<Rightarrow> (error + result) \<times> store \<times> disk" where
  "exec fm now now2 (Set k v t) s dk = ret RBool (set_db k v t now now2 s) dk"
| "exec fm now now2 (Get k d) s dk = ret RValue (get k d now s) dk"
| "exec fm now now2 (Delete k) s dk = ret RBool (delete k now s) dk"
| "exec fm now now2 (Exists k) s dk = ret RBool (exists k now s) dk"
| "exec fm now now2 Size s dk = ret RInt (size_db now s) dk"
| "exec fm now now2 (Keys p) s dk = ret RKeys (keys fm p now s) dk"
| "exec fm now now2 Values s dk = ret RValues (values_db now s) dk"
| "exec fm now now2 Items s dk = ret RItems (items now s) dk"
| "exec fm now now2 Reset s dk = (Inr RNone, reset s, dk)"
| "exec fm now now2 Stats s dk = ret RStats (stats now s) dk"
| "exec fm now now2 (Save f io) s dk =
     (case save_to_disk f io now s dk of (r, s1, dk1) \<Rightarrow> (map_sum id RBool r, s1, dk1))"
| "exec fm now now2 (Load f) s dk = ret RBool (load_from_disk f now s dk) dk"
| "exec fm now now2 (Quit io) s dk =
     (case quit io now s dk of (r, s1, dk1) \<Rightarrow> (map_sum id (\<lambda>_. RNone) r, s1, dk1))"

fun run ::
  "(string \<Rightarrow> string \<Rightarrow> bool) \<Rightarrow> (real \<times> real \<times> call) list \<Rightarrow> store \<times> disk \<Rightarrow> store \<times> disk" where
  "run fm [] w = w"
| "run fm (c # cs) w =
     run fm cs (snd (exec fm (fst c) (fst (snd c)) (snd (snd c)) (fst w) (snd w)))"

fun is_load :: "call \<Rightarrow> bool" where
  "is_load (Load _) = True"
| "is_load _ = False"




subsection \<open>Invariants\<close>

text \<open>Every key of the expiry table is a key of the value table.\<close>

definition ttl_in_data :: "store \<Rightarrow> bool" where
  "ttl_in_data s = (fst ` set (db_ttl s) \<subseteq> fst ` set (db_data s))"

text \<open>Both tables are Python dicts (no key twice), and the expiry keys are value keys.\<close>

definition wf_store :: "store \<Rightarrow> bool" where
  "wf_store s = (distinct (map fst (db_data s)) \<and> distinct (map fst (db_ttl s)) \<and> ttl_in_data s)"



text \<open>
  The store a successful prune leaves, in closed form: the expired keys are gone from
  both tables and counted.
\<close>

definition pruned :: "real \<Rightarrow> store \<Rightarrow> store" where
  "pruned now s =
     s\<lparr>db_data := filter (\<lambda>p. fst p \<notin> set (expired_keys now (db_ttl s))) (db_data s),
       db_ttl := filter (\<lambda>p. \<not> now > snd p) (db_ttl s),
       db_stats := (db_stats s)\<lparr>expired :=
          expired (db_stats s) + int (length (expired_keys now (db_ttl s)))\<rparr>\<rparr>"

subsection \<open>Glob matching, as the specification words it\<close>

text \<open>
  The specification's pattern language for \<open>keys\<close>: \<^verbatim>\<open>*\<close> matches any run of characters,
  \<^verbatim>\<open>?\<close> matches any one character, every other character matches itself.
\<close>

fun glob_match :: "string \<Rightarrow> string \<Rightarrow> bool" where
  "glob_match [] [] = True"
| "glob_match [] (c # k) = False"
| "glob_match (p # ps) [] = (p = CHR ''*'' \<and> glob_match ps [])"
| "glob_match (p # ps) (c # k) =
     (if p = CHR ''*'' then glob_match ps (c # k) \<or> glob_match (p # ps) k
      else (p = CHR ''?'' \<or> p = c) \<and> glob_match ps k)"

subsection \<open>Stores and matchers for the examples\<close>

text \<open>A matcher that decides as the specification's glob does.\<close>

definition fm_glob :: "string \<Rightarrow> string \<Rightarrow> bool" where
  "fm_glob key pattern = glob_match pattern key"

text \<open>The store after \<^verbatim>\<open>set("k", "v", ttl=1)\<close> at clock reading 0 on a new store.\<close>

definition ttl_store :: store where
  "ttl_store = snd (set_db (PStr ''k'') (PStr ''v'') (PInt 1) 0 0 (init ''db''))"

text \<open>The store after \<^verbatim>\<open>set("ab", 1)\<close> at clock reading 0 on a new store.\<close>

definition ab_store :: store where
  "ab_store = snd (set_db (PStr ''ab'') (PInt 1) PNone 0 0 (init ''db''))"

subsection \<open>Entries that have not expired\<close>

text \<open>A key is live at \<open>now\<close> in an expiry table when it has no expiry there, or one that \<open>now\<close> has not passed.\<close>

definition live_at :: "real \<Rightarrow> (string, real) dict \<Rightarrow> string \<Rightarrow> bool" where
  "live_at now t k = (case map_of t k of None \<Rightarrow> True | Some e \<Rightarrow> \<not> now > e)"

section \<open>Properties\<close>

subsection \<open>Dictionary operations\<close>

lemma dict_has_del: "dict_has k (dict_del k' d) = (dict_has k d \<and> k \<noteq> k')"
  by (auto simp: dict_has_def dict_del_def)

lemma keys_dict_del: "fst ` set (dict_del k d) = fst ` set d - {k}"
  by (auto simp: dict_del_def)

lemma keys_dict_set: "fst ` set (dict_set k v d) = insert k (fst ` set d)"
  by (induction d) auto

lemma distinct_dict_del: "distinct (map fst d) \<Longrightarrow> distinct (map fst (dict_del k d))"
  by (simp add: dict_del_def distinct_map_filter)

lemma distinct_dict_set: "distinct (map fst d) \<Longrightarrow> distinct (map fst (dict_set k v d))"
  by (induction d) (auto simp: keys_dict_set)

lemma map_of_dict_set: "map_of (dict_set k v d) = (map_of d)(k \<mapsto> v)"
  by (induction d) auto

lemma map_of_dict_del: "map_of (dict_del k d) = (map_of d)(k := None)"
  by (induction d) (auto simp: dict_del_def)

lemma dict_del_absent: "\<not> dict_has k d \<Longrightarrow> dict_del k d = d"
  by (induction d) (auto simp: dict_del_def dict_has_def)

lemma dict_has_map_of: "dict_has k d = (map_of d k \<noteq> None)"
  by (simp add: dict_has_def map_of_eq_None_iff)

lemma filter_dict_del:
  "filter (\<lambda>p. fst p \<notin> set ks) (dict_del k d) = filter (\<lambda>p. fst p \<notin> set (k # ks)) d"
  by (auto simp: dict_del_def intro: filter_cong)

lemma distinct_fst_eq:
  "distinct (map fst t) \<Longrightarrow> p \<in> set t \<Longrightarrow> q \<in> set t \<Longrightarrow> fst q = fst p \<Longrightarrow> q = p"
  by (induction t) (auto simp: image_iff)

lemma map_of_filter_notin:
  "map_of (filter (\<lambda>p. fst p \<notin> E) d) k = (if k \<in> E then None else map_of d k)"
  by (induction d) auto

subsection \<open>The prune on a well-formed store\<close>

text \<open>
  When the keys to delete are distinct keys of both tables, the loop runs to its end
  without a \<^verbatim>\<open>KeyError\<close>, and its effect is a filter of each table.
\<close>

lemma prune_loop_ok:
  "distinct ks \<Longrightarrow> set ks \<subseteq> fst ` set (db_ttl s) \<Longrightarrow> set ks \<subseteq> fst ` set (db_data s) \<Longrightarrow>
   prune_loop ks s =
     (Inr (), s\<lparr>db_data := filter (\<lambda>p. fst p \<notin> set ks) (db_data s),
                db_ttl := filter (\<lambda>p. fst p \<notin> set ks) (db_ttl s),
                db_stats := (db_stats s)\<lparr>expired := expired (db_stats s) + int (length ks)\<rparr>\<rparr>)"
proof (induction ks arbitrary: s)
  case Nil
  then show ?case by simp
next
  case (Cons k ks)
  let ?s' = "s\<lparr>db_data := dict_del k (db_data s), db_ttl := dict_del k (db_ttl s),
               db_stats := count_expired (db_stats s)\<rparr>"
  from Cons.prems have hk: "dict_has k (db_data s)" "dict_has k (db_ttl s)"
    by (auto simp: dict_has_def)
  have step: "prune_loop (k # ks) s = prune_loop ks ?s'"
    using hk by (simp add: Let_def)
  have "prune_loop ks ?s' =
          (Inr (), ?s'\<lparr>db_data := filter (\<lambda>p. fst p \<notin> set ks) (db_data ?s'),
                db_ttl := filter (\<lambda>p. fst p \<notin> set ks) (db_ttl ?s'),
                db_stats := (db_stats ?s')\<lparr>expired := expired (db_stats ?s') + int (length ks)\<rparr>\<rparr>)"
    using Cons.prems by (intro Cons.IH) (auto simp: keys_dict_del)
  then show ?case
    unfolding step by (simp add: count_expired_def filter_dict_del add.assoc)
qed

lemma filter_expired_keys:
  assumes "distinct (map fst t)"
  shows "filter (\<lambda>p. fst p \<notin> set (expired_keys now t)) t = filter (\<lambda>p. \<not> now > snd p) t"
proof (rule filter_cong[OF refl])
  fix p assume p: "p \<in> set t"
  have "fst p \<in> set (expired_keys now t) \<longleftrightarrow> now > snd p"
  proof
    assume "fst p \<in> set (expired_keys now t)"
    then obtain q where q: "q \<in> set t" "now > snd q" "fst q = fst p"
      by (auto simp: expired_keys_def)
    with assms p have "q = p" by (simp add: distinct_fst_eq)
    with q show "now > snd p" by simp
  next
    assume "now > snd p"
    with p show "fst p \<in> set (expired_keys now t)" by (auto simp: expired_keys_def)
  qed
  then show "(fst p \<notin> set (expired_keys now t)) = (\<not> now > snd p)" by simp
qed

lemma distinct_expired_keys: "distinct (map fst t) \<Longrightarrow> distinct (expired_keys now t)"
  by (simp add: expired_keys_def distinct_map_filter)

lemma prune_expired_wf: "wf_store s \<Longrightarrow> prune_expired now s = (Inr (), pruned now s)"
proof -
  assume wf: "wf_store s"
  have sub: "set (expired_keys now (db_ttl s)) \<subseteq> fst ` set (db_ttl s)"
    by (auto simp: expired_keys_def)
  have "prune_loop (expired_keys now (db_ttl s)) s =
          (Inr (), s\<lparr>db_data := filter (\<lambda>p. fst p \<notin> set (expired_keys now (db_ttl s))) (db_data s),
                db_ttl := filter (\<lambda>p. fst p \<notin> set (expired_keys now (db_ttl s))) (db_ttl s),
                db_stats := (db_stats s)\<lparr>expired :=
                   expired (db_stats s) + int (length (expired_keys now (db_ttl s)))\<rparr>\<rparr>)"
    using wf sub
    by (intro prune_loop_ok) (auto simp: wf_store_def ttl_in_data_def distinct_expired_keys)
  moreover have "filter (\<lambda>p. fst p \<notin> set (expired_keys now (db_ttl s))) (db_ttl s) =
                 filter (\<lambda>p. \<not> now > snd p) (db_ttl s)"
    using wf by (intro filter_expired_keys) (simp add: wf_store_def)
  ultimately show ?thesis by (simp add: prune_expired_def pruned_def)
qed

lemma ttl_in_data_pruned:
  assumes "wf_store s"
  shows "ttl_in_data (pruned now s)"
proof -
  have "k \<in> fst ` set (db_data (pruned now s))" if "k \<in> fst ` set (db_ttl (pruned now s))" for k
  proof -
    from that obtain e where e: "(k, e) \<in> set (db_ttl s)" "\<not> now > e"
      by (auto simp: pruned_def)
    have "k \<notin> set (expired_keys now (db_ttl s))"
    proof
      assume "k \<in> set (expired_keys now (db_ttl s))"
      then obtain q where q: "q \<in> set (db_ttl s)" "now > snd q" "fst q = k"
        by (auto simp: expired_keys_def)
      with assms e have "q = (k, e)"
        by (intro distinct_fst_eq[of "db_ttl s"]) (auto simp: wf_store_def)
      with q e show False by simp
    qed
    moreover from e assms have "k \<in> fst ` set (db_data s)"
      by (force simp: wf_store_def ttl_in_data_def)
    ultimately show ?thesis by (force simp: pruned_def)
  qed
  then show ?thesis unfolding ttl_in_data_def by blast
qed

lemma wf_pruned: "wf_store s \<Longrightarrow> wf_store (pruned now s)"
  using ttl_in_data_pruned[of s now]
  by (simp add: wf_store_def distinct_map_filter) (simp add: pruned_def distinct_map_filter)


lemma wf_init: "wf_store (init name)"
  by (simp add: wf_store_def ttl_in_data_def init_def)

subsection \<open>Every call but a load keeps the store well-formed\<close>

lemma wf_store_stats [simp]: "wf_store (s\<lparr>db_stats := st\<rparr>) = wf_store s"
  by (simp add: wf_store_def ttl_in_data_def)

lemma wf_store_running [simp]: "wf_store (s\<lparr>db_is_running := b\<rparr>) = wf_store s"
  by (simp add: wf_store_def ttl_in_data_def)

lemma wf_set_value: "wf_store s \<Longrightarrow> wf_store (s\<lparr>db_data := dict_set k v (db_data s)\<rparr>)"
  by (auto simp: wf_store_def ttl_in_data_def distinct_dict_set keys_dict_set)

lemma wf_set_expiry:
  "wf_store s \<Longrightarrow> dict_has k (db_data s) \<Longrightarrow> wf_store (s\<lparr>db_ttl := dict_set k e (db_ttl s)\<rparr>)"
  by (auto simp: wf_store_def ttl_in_data_def distinct_dict_set keys_dict_set dict_has_def)

lemma wf_del_expiry: "wf_store s \<Longrightarrow> wf_store (s\<lparr>db_ttl := dict_del k (db_ttl s)\<rparr>)"
  by (auto simp: wf_store_def ttl_in_data_def distinct_dict_del keys_dict_del)

lemma wf_del_both:
  "wf_store s \<Longrightarrow> wf_store (s\<lparr>db_data := dict_del k (db_data s), db_ttl := dict_del k (db_ttl s)\<rparr>)"
  by (auto simp: wf_store_def ttl_in_data_def distinct_dict_del keys_dict_del)

lemma dict_has_set: "dict_has k (dict_set k v d)"
  by (simp add: dict_has_def keys_dict_set)

lemma wf_set_db: 
  assumes "wf_store s" shows "wf_store (snd (set_db key val ttl now now2 s))"
proof -
  let ?p = "pruned now s"
  have wp: "wf_store ?p" using assms by (rule wf_pruned)
  show ?thesis
  proof (cases "validate_key key")
    case (Inl e) then show ?thesis using assms by (simp add: set_db_def)
  next
    case (Inr k)
    let ?s2 = "?p\<lparr>db_data := dict_set k val (db_data ?p)\<rparr>"
    have w2: "wf_store ?s2" using wp by (rule wf_set_value)
    have w3: "wf_store (?s2\<lparr>db_ttl := dict_set k e (db_ttl ?s2)\<rparr>)" for e
      using w2 by (rule wf_set_expiry) (simp add: dict_has_set)
    have w4: "wf_store (?s2\<lparr>db_ttl := dict_del k (db_ttl ?s2)\<rparr>)"
      using w2 by (rule wf_del_expiry)
    show ?thesis
    proof (cases "validate_value val")
      case (Inl e) then show ?thesis using assms Inr by (simp add: set_db_def)
    next
      case (Inr u)
      show ?thesis
      proof (cases "as_int ttl")
        case None
        then show ?thesis using \<open>validate_key key = Inr k\<close> Inr assms w2 w4
          by (simp add: set_db_def prune_expired_wf Let_def)
      next
        case (Some n)
        then show ?thesis using \<open>validate_key key = Inr k\<close> Inr assms w2 w3
          by (simp add: set_db_def prune_expired_wf Let_def)
      qed
    qed
  qed
qed

lemma wf_get: "wf_store s \<Longrightarrow> wf_store (snd (get key d now s))"
  by (cases "validate_key key")
     (simp_all add: get_def prune_expired_wf wf_pruned Let_def split: option.splits)

lemma wf_delete:
  assumes "wf_store s" shows "wf_store (snd (delete key now s))"
proof (cases "validate_key key")
  case (Inl e) then show ?thesis using assms by (simp add: delete_def)
next
  case (Inr k)
  let ?p = "pruned now s"
  have w: "wf_store (?p\<lparr>db_data := dict_del k (db_data ?p), db_ttl := dict_del k (db_ttl ?p)\<rparr>)"
    using assms by (intro wf_del_both wf_pruned)
  have w': "\<not> dict_has k (db_ttl ?p) \<Longrightarrow> wf_store (?p\<lparr>db_data := dict_del k (db_data ?p)\<rparr>)"
    using w by (simp add: dict_del_absent)
  show ?thesis using Inr assms w w'
    by (simp add: delete_def prune_expired_wf wf_pruned Let_def)
qed

lemma wf_exists: "wf_store s \<Longrightarrow> wf_store (snd (exists key now s))"
  by (cases "validate_key key") (simp_all add: exists_def prune_expired_wf wf_pruned)

lemma wf_size_db: "wf_store s \<Longrightarrow> wf_store (snd (size_db now s))"
  by (simp add: size_db_def prune_expired_wf wf_pruned)

lemma wf_values_db: "wf_store s \<Longrightarrow> wf_store (snd (values_db now s))"
  by (simp add: values_db_def prune_expired_wf wf_pruned)

lemma wf_keys: "wf_store s \<Longrightarrow> wf_store (snd (keys fm p now s))"
  by (simp add: keys_def prune_expired_wf wf_pruned)

lemma wf_items: "wf_store s \<Longrightarrow> wf_store (snd (items now s))"
  by (simp add: items_def prune_expired_wf wf_pruned)

lemma wf_reset: "wf_store (reset s)"
  by (simp add: reset_def wf_store_def ttl_in_data_def)

lemma wf_stats: "wf_store s \<Longrightarrow> wf_store (snd (stats now s))"
  by (simp add: stats_def prune_expired_wf wf_pruned Let_def)

lemma wf_save_to_disk: "wf_store s \<Longrightarrow> wf_store (fst (snd (save_to_disk f io now s dk)))"
  by (cases io) (simp_all add: save_to_disk_def prune_expired_wf wf_pruned Let_def)

lemma wf_quit: "wf_store s \<Longrightarrow> wf_store (fst (snd (quit io now s dk)))"
  using wf_save_to_disk[of "s\<lparr>db_is_running := False\<rparr>" None io now dk]
  by (auto simp: quit_def split: prod.splits sum.splits)

lemma wf_exec:
  assumes "wf_store s" "\<not> is_load c"
  shows "wf_store (fst (snd (exec fm now now2 c s dk)))"
proof (cases c)
  case (Save f io)
  then show ?thesis using wf_save_to_disk[OF assms(1), of f io now dk]
    by (auto split: prod.splits)
next
  case (Quit io)
  then show ?thesis using wf_quit[OF assms(1), of io now dk]
    by (auto split: prod.splits)
qed (use assms in \<open>simp_all add: ret_def wf_set_db wf_get wf_delete wf_exists wf_size_db
        wf_values_db wf_keys wf_items wf_reset wf_stats\<close>)

lemma wf_run:
  "wf_store (fst w) \<Longrightarrow> list_all (\<lambda>c. \<not> is_load (snd (snd c))) cs \<Longrightarrow> wf_store (fst (run fm cs w))"
  by (induction cs arbitrary: w) (simp_all add: wf_exec)

subsection \<open>The example stores\<close>

lemma strip_k: "strip ''k'' \<noteq> []"
  by (simp add: strip_def py_isspace_def)

lemma ttl_store_eq:
  "ttl_store =
     \<lparr>db_name = ''db'', db_data = [(''k'', PStr ''v'')], db_ttl = [(''k'', 1)],
      db_stats = \<lparr>gets = 0, sets = 0, deletes = 0, hits = 0, misses = 0, expired = 0\<rparr>,
      db_is_running = True\<rparr>"
  by (simp add: ttl_store_def set_db_def validate_value_def prune_expired_def expired_keys_def
        init_def strip_k float_overflow_def)

lemma wf_ttl_store: "wf_store ttl_store"
  by (simp add: ttl_store_eq wf_store_def ttl_in_data_def)

lemma strip_ab: "strip ''ab'' \<noteq> []"
  by (simp add: strip_def py_isspace_def)

lemma ab_store_eq:
  "ab_store =
     \<lparr>db_name = ''db'', db_data = [(''ab'', PInt 1)], db_ttl = [],
      db_stats = \<lparr>gets = 0, sets = 0, deletes = 0, hits = 0, misses = 0, expired = 0\<rparr>,
      db_is_running = True\<rparr>"
  by (simp add: ab_store_def set_db_def validate_value_def prune_expired_def expired_keys_def
        init_def strip_ab dict_has_def)

lemma wf_ab_store: "wf_store ab_store"
  by (simp add: ab_store_eq wf_store_def ttl_in_data_def)

subsection \<open>The specification's glob\<close>

lemma glob_star: "glob_match ''*'' k"
  by (induction k) simp_all

lemma glob_literal:
  "CHR ''*'' \<notin> set pat \<Longrightarrow> CHR ''?'' \<notin> set pat \<Longrightarrow> glob_match pat k = (k = pat)"
  by (induction pat k rule: glob_match.induct) auto

subsection \<open>Live entries\<close>

lemma map_of_distinct_mem:
  "distinct (map fst t) \<Longrightarrow> p \<in> set t \<Longrightarrow> map_of t (fst p) = Some (snd p)"
  by (cases p) simp

lemma filter_live_ttl:
  assumes "distinct (map fst t)"
  shows "filter (\<lambda>p. \<not> now > snd p) t = filter (\<lambda>p. live_at now t (fst p)) t"
  using assms by (intro filter_cong refl) (simp add: live_at_def map_of_distinct_mem)

lemma expired_keys_live:
  assumes "distinct (map fst t)"
  shows "(k \<notin> set (expired_keys now t)) = live_at now t k"
proof (cases "map_of t k")
  case None
  then have "k \<notin> fst ` set t" by (simp add: map_of_eq_None_iff)
  then have "k \<notin> set (expired_keys now t)" by (auto simp: expired_keys_def)
  with None show ?thesis by (simp add: live_at_def)
next
  case (Some e)
  then have mem: "(k, e) \<in> set t" by (rule map_of_SomeD)
  have "k \<in> set (expired_keys now t) \<longleftrightarrow> now > e"
  proof
    assume "k \<in> set (expired_keys now t)"
    then obtain q where q: "q \<in> set t" "now > snd q" "fst q = k"
      by (auto simp: expired_keys_def)
    with assms mem have "q = (k, e)" by (intro distinct_fst_eq[of t]) auto
    with q show "now > e" by simp
  next
    assume "now > e"
    with mem show "k \<in> set (expired_keys now t)" by (force simp: expired_keys_def)
  qed
  with Some show ?thesis by (simp add: live_at_def)
qed

subsection \<open>The sets counter\<close>

lemma sets_pruned [simp]: "sets (db_stats (pruned now s)) = sets (db_stats s)"
  by (simp add: pruned_def)

lemma sets_set_db:
  "wf_store s \<Longrightarrow> sets (db_stats (snd (set_db key val ttl now now2 s))) = sets (db_stats s)"
  by (cases "validate_key key"; cases "validate_value val"; cases "as_int ttl")
     (simp_all add: set_db_def prune_expired_wf Let_def)

lemma sets_get:
  "wf_store s \<Longrightarrow> sets (db_stats (snd (get key d now s))) = sets (db_stats s)"
  by (cases "validate_key key")
     (simp_all add: get_def prune_expired_wf Let_def count_hit_def count_miss_def
        split: option.splits)

lemma sets_delete:
  "wf_store s \<Longrightarrow> sets (db_stats (snd (delete key now s))) = sets (db_stats s)"
  by (cases "validate_key key") (simp_all add: delete_def prune_expired_wf Let_def)

lemma sets_exists:
  "wf_store s \<Longrightarrow> sets (db_stats (snd (exists key now s))) = sets (db_stats s)"
  by (cases "validate_key key") (simp_all add: exists_def prune_expired_wf)

lemma sets_save_to_disk:
  "wf_store s \<Longrightarrow> sets (db_stats (fst (snd (save_to_disk f io now s dk)))) = sets (db_stats s)"
  by (cases io) (simp_all add: save_to_disk_def prune_expired_wf Let_def)

lemma sets_quit:
  "wf_store s \<Longrightarrow> sets (db_stats (fst (snd (quit io now s dk)))) = sets (db_stats s)"
  using sets_save_to_disk[of "s\<lparr>db_is_running := False\<rparr>" None io now dk]
  by (auto simp: quit_def split: prod.splits sum.splits)

lemma sets_exec:
  assumes "wf_store s" "\<not> is_load c"
  shows "sets (db_stats (fst (snd (exec fm now now2 c s dk)))) = sets (db_stats s)"
proof (cases c)
  case (Save f io)
  then show ?thesis using sets_save_to_disk[OF assms(1), of f io now dk]
    by (auto split: prod.splits)
next
  case (Quit io)
  then show ?thesis using sets_quit[OF assms(1), of io now dk]
    by (auto split: prod.splits)
qed (use assms in \<open>simp_all add: ret_def sets_set_db sets_get sets_delete sets_exists
        size_db_def values_db_def keys_def items_def reset_def stats_def prune_expired_wf Let_def\<close>)

lemma sets_run:
  "wf_store (fst w) \<Longrightarrow> list_all (\<lambda>c. \<not> is_load (snd (snd c))) cs \<Longrightarrow>
   sets (db_stats (fst (run fm cs w))) = sets (db_stats (fst w))"
  by (induction cs arbitrary: w) (simp_all add: wf_exec sets_exec)

subsection \<open>Calls that prune first\<close>





















subsection \<open>Expiry keys stay value keys, on any store\<close>

text \<open>
  These hold without well-formedness: when a \<^verbatim>\<open>del\<close> of the prune raises, the store it
  leaves still has its expiry keys among its value keys.
\<close>

lemma tid_stats [simp]: "ttl_in_data (s\<lparr>db_stats := st\<rparr>) = ttl_in_data s"
  by (simp add: ttl_in_data_def)

lemma tid_running [simp]: "ttl_in_data (s\<lparr>db_is_running := b\<rparr>) = ttl_in_data s"
  by (simp add: ttl_in_data_def)

lemma tid_del_data:
  "ttl_in_data s \<Longrightarrow> \<not> dict_has k (db_ttl s) \<Longrightarrow> ttl_in_data (s\<lparr>db_data := dict_del k (db_data s)\<rparr>)"
  by (auto simp: ttl_in_data_def dict_has_def keys_dict_del)

lemma tid_del_both:
  "ttl_in_data s \<Longrightarrow>
   ttl_in_data (s\<lparr>db_data := dict_del k (db_data s), db_ttl := dict_del k (db_ttl s)\<rparr>)"
  by (auto simp: ttl_in_data_def keys_dict_del)

lemma tid_del_ttl: "ttl_in_data s \<Longrightarrow> ttl_in_data (s\<lparr>db_ttl := dict_del k (db_ttl s)\<rparr>)"
  by (auto simp: ttl_in_data_def keys_dict_del)

lemma tid_set_data: "ttl_in_data s \<Longrightarrow> ttl_in_data (s\<lparr>db_data := dict_set k v (db_data s)\<rparr>)"
  by (auto simp: ttl_in_data_def keys_dict_set)

lemma tid_set_both:
  "ttl_in_data s \<Longrightarrow>
   ttl_in_data (s\<lparr>db_data := dict_set k v (db_data s), db_ttl := dict_set k e (db_ttl s)\<rparr>)"
  by (auto simp: ttl_in_data_def keys_dict_set)

lemma tid_set_del:
  "ttl_in_data s \<Longrightarrow>
   ttl_in_data (s\<lparr>db_data := dict_set k v (db_data s), db_ttl := dict_del k (db_ttl s)\<rparr>)"
  by (auto simp: ttl_in_data_def keys_dict_set keys_dict_del)

lemma tid_prune_loop: "ttl_in_data s \<Longrightarrow> ttl_in_data (snd (prune_loop ks s))"
proof (induction ks arbitrary: s)
  case Nil
  then show ?case by simp
next
  case (Cons k ks)
  let ?s' = "s\<lparr>db_data := dict_del k (db_data s), db_ttl := dict_del k (db_ttl s),
               db_stats := count_expired (db_stats s)\<rparr>"
  have "ttl_in_data ?s'" using Cons.prems tid_del_both[of s k] by simp
  then have "ttl_in_data (snd (prune_loop ks ?s'))" by (rule Cons.IH)
  then show ?case
    using Cons.prems tid_del_data[of s k] by (simp add: Let_def)
qed

lemma tid_prune: "ttl_in_data s \<Longrightarrow> prune_expired now s = (r, s1) \<Longrightarrow> ttl_in_data s1"
  using tid_prune_loop[of s "expired_keys now (db_ttl s)"] by (simp add: prune_expired_def)

lemma tid_set_db:
  assumes "ttl_in_data s"
  shows "ttl_in_data (snd (set_db key val ttl now now2 s))"
proof -
  obtain r s1 where p: "prune_expired now s = (r, s1)" by force
  have t1: "ttl_in_data s1" using assms p by (rule tid_prune)
  show ?thesis
    using assms p t1 tid_set_data[OF t1] tid_set_both[OF t1] tid_set_del[OF t1]
    by (simp add: set_db_def Let_def split: sum.splits option.splits)
qed

lemma tid_get:
  assumes "ttl_in_data s"
  shows "ttl_in_data (snd (get key d now s))"
proof -
  obtain r s1 where p: "prune_expired now s = (r, s1)" by force
  have t1: "ttl_in_data s1" using assms p by (rule tid_prune)
  show ?thesis
    using assms p t1 by (simp add: get_def Let_def split: sum.splits option.splits)
qed

lemma tid_delete:
  assumes "ttl_in_data s"
  shows "ttl_in_data (snd (delete key now s))"
proof -
  obtain r s1 where p: "prune_expired now s = (r, s1)" by force
  have t1: "ttl_in_data s1" using assms p by (rule tid_prune)
  show ?thesis
    using assms p t1 tid_del_both[OF t1] tid_del_data[OF t1]
    by (simp add: delete_def Let_def dict_has_del split: sum.splits)
qed

lemma tid_prune_only:
  assumes "ttl_in_data s"
  shows "ttl_in_data (snd (exists key now s))"
    and "ttl_in_data (snd (size_db now s))"
    and "ttl_in_data (snd (keys fm pat now s))"
    and "ttl_in_data (snd (values_db now s))"
    and "ttl_in_data (snd (items now s))"
    and "ttl_in_data (snd (stats now s))"
    and "ttl_in_data (fst (snd (save_to_disk f io now s dk)))"
proof -
  obtain r s1 where p: "prune_expired now s = (r, s1)" by force
  have t1: "ttl_in_data s1" using assms p by (rule tid_prune)
  show "ttl_in_data (snd (exists key now s))"
    using assms p t1 by (simp add: exists_def split: sum.splits)
  show "ttl_in_data (snd (size_db now s))"
    using p t1 by (simp add: size_db_def split: sum.splits)
  show "ttl_in_data (snd (keys fm pat now s))"
    using p t1 by (simp add: keys_def split: sum.splits)
  show "ttl_in_data (snd (values_db now s))"
    using p t1 by (simp add: values_db_def split: sum.splits)
  show "ttl_in_data (snd (items now s))"
    using p t1 by (simp add: items_def split: sum.splits)
  show "ttl_in_data (snd (stats now s))"
    using p t1 by (simp add: stats_def Let_def split: sum.splits)
  show "ttl_in_data (fst (snd (save_to_disk f io now s dk)))"
    using p t1 by (simp add: save_to_disk_def Let_def split: sum.splits io.splits)
qed

lemma tid_quit: "ttl_in_data s \<Longrightarrow> ttl_in_data (fst (snd (quit io now s dk)))"
  using tid_prune_only(7)[of "s\<lparr>db_is_running := False\<rparr>" None io now dk]
  by (auto simp: quit_def split: prod.splits sum.splits)

lemma tid_exec:
  assumes "ttl_in_data s" "\<not> is_load c"
  shows "ttl_in_data (fst (snd (exec fm now now2 c s dk)))"
proof (cases c)
  case (Save f io)
  then show ?thesis using tid_prune_only(7)[OF assms(1), of f io now dk]
    by (auto split: prod.splits)
next
  case (Quit io)
  then show ?thesis using tid_quit[OF assms(1), of io now dk]
    by (auto split: prod.splits)
next
  case Reset
  then show ?thesis by (simp add: reset_def ttl_in_data_def)
qed (use assms in \<open>simp_all add: ret_def tid_set_db tid_get tid_delete tid_prune_only\<close>)

lemma tid_run:
  "ttl_in_data (fst w) \<Longrightarrow> list_all (\<lambda>c. \<not> is_load (snd (snd c))) cs \<Longrightarrow>
   ttl_in_data (fst (run fm cs w))"
  by (induction cs arbitrary: w) (simp_all add: tid_exec)

subsection \<open>A set without TTL\<close>

lemma set_db_no_ttl:
  assumes "wf_store s" "strip k \<noteq> []" "json_dumps_ok val" "as_int ttl = None"
  shows "set_db (PStr k) val ttl now now2 s =
           (Inr True, (pruned now s)\<lparr>db_data := dict_set k val (db_data (pruned now s)),
                                     db_ttl := dict_del k (db_ttl (pruned now s))\<rparr>)"
  using assms
  by (simp add: set_db_def validate_value_def prune_expired_wf Let_def dict_del_absent)

lemma wf_after_set_no_ttl:
  assumes "wf_store s"
  shows "wf_store (s\<lparr>db_data := dict_set k val (db_data s), db_ttl := dict_del k (db_ttl s)\<rparr>)"
  using assms
  by (auto simp: wf_store_def ttl_in_data_def distinct_dict_set distinct_dict_del
        keys_dict_set keys_dict_del)

lemma strip_name: "strip ''name'' \<noteq> []"
  by (simp add: strip_def py_isspace_def)

section \<open>The claims\<close>

subsection \<open>C1: a TTL that is zero or negative\<close>

text \<open>
  Claim C1, on the code. \<open>set\<close> looks at the TTL after it has written the value: with
  TTL 0 on a new store the call raises \<^verbatim>\<open>PocketDBInvalidValueError\<close> and the entry is
  there all the same; with TTL -1 on a store that holds the key, the call raises and the
  old value has been overwritten.
\<close>

theorem set_zero_ttl_writes_value:
  "fst (set_db (PStr ''k'') (PStr ''v'') (PInt 0) 0 0 (init ''db'')) = Inl InvalidValue \<and>
   db_data (init ''db'') = [] \<and>
   db_data (snd (set_db (PStr ''k'') (PStr ''v'') (PInt 0) 0 0 (init ''db'')))
     = [(''k'', PStr ''v'')] \<and>
   fst (set_db (PStr ''k'') (PStr ''new'') (PInt (- 1)) 0 0 ttl_store) = Inl InvalidValue \<and>
   db_data ttl_store = [(''k'', PStr ''v'')] \<and>
   db_data (snd (set_db (PStr ''k'') (PStr ''new'') (PInt (- 1)) 0 0 ttl_store))
     = [(''k'', PStr ''new'')]"
  by (simp add: ttl_store_eq set_db_def validate_value_def prune_expired_def expired_keys_def
        init_def strip_k)

subsection \<open>C2: a TTL that is not an integer\<close>

text \<open>
  Claim C2, as the code has it. A TTL that is a float or a string is not an instance of
  \<^verbatim>\<open>int\<close>: the call takes the branch of a call without TTL, returns \<open>True\<close> and drops the
  expiry the key had.
\<close>

theorem set_float_ttl_succeeds:
  "db_ttl ttl_store = [(''k'', 1)] \<and>
   fst (set_db (PStr ''k'') (PStr ''v'') (PFloat (5 / 2)) 0 0 ttl_store) = Inr True \<and>
   db_ttl (snd (set_db (PStr ''k'') (PStr ''v'') (PFloat (5 / 2)) 0 0 ttl_store)) = [] \<and>
   fst (set_db (PStr ''k'') (PStr ''v'') (PStr ''10'') 0 0 ttl_store) = Inr True \<and>
   db_ttl (snd (set_db (PStr ''k'') (PStr ''v'') (PStr ''10'') 0 0 ttl_store)) = []"
  by (simp add: ttl_store_eq set_db_def validate_value_def prune_expired_def expired_keys_def
        strip_k dict_has_def dict_del_def)

text \<open>
  Claim C2, amended. On a well-formed store, for a valid key and a serializable value:
  when the TTL is an integer (or a boolean) that is zero or negative, \<open>set\<close> raises
  \<^verbatim>\<open>PocketDBInvalidValueError\<close> and the expiry table is the one the prune left; when the
  TTL is not an integer at all (a float, a string, \<^verbatim>\<open>None\<close>), \<open>set\<close> returns \<open>True\<close>, the
  key holds the value and has no expiry.
\<close>

theorem set_ttl_not_positive_int:
  assumes "wf_store s" "strip k \<noteq> []" "json_dumps_ok val"
  shows "(case as_int ttl of
            Some n \<Rightarrow>
              n \<le> 0 \<longrightarrow>
                fst (set_db (PStr k) val ttl now now2 s) = Inl InvalidValue \<and>
                db_ttl (snd (set_db (PStr k) val ttl now now2 s))
                  = db_ttl (snd (prune_expired now s))
          | None \<Rightarrow>
              fst (set_db (PStr k) val ttl now now2 s) = Inr True \<and>
              map_of (db_data (snd (set_db (PStr k) val ttl now now2 s))) k = Some val \<and>
              \<not> dict_has k (db_ttl (snd (set_db (PStr k) val ttl now now2 s))))"
  using assms
  by (cases "as_int ttl")
     (simp_all add: set_db_def validate_value_def prune_expired_wf Let_def map_of_dict_set
        dict_has_del)

theorem set_ttl_not_positive_int_witness:
  "fst (set_db (PStr ''k'') (PStr ''v'') (PInt 0) 0 0 ttl_store) = Inl InvalidValue \<and>
   db_ttl (snd (set_db (PStr ''k'') (PStr ''v'') (PInt 0) 0 0 ttl_store))
     = db_ttl (snd (prune_expired 0 ttl_store)) \<and>
   fst (set_db (PStr ''k'') (PStr ''v'') (PFloat (5 / 2)) 0 0 ttl_store) = Inr True \<and>
   map_of (db_data (snd (set_db (PStr ''k'') (PStr ''v'') (PFloat (5 / 2)) 0 0 ttl_store))) ''k''
     = Some (PStr ''v'') \<and>
   \<not> dict_has ''k''
       (db_ttl (snd (set_db (PStr ''k'') (PStr ''v'') (PFloat (5 / 2)) 0 0 ttl_store)))"
  using set_ttl_not_positive_int[of ttl_store "''k''" "PStr ''v''" "PInt 0" 0 0]
        set_ttl_not_positive_int[of ttl_store "''k''" "PStr ''v''" "PFloat (5 / 2)" 0 0]
  by (simp add: wf_ttl_store strip_k)

subsection \<open>C3: the patterns of keys\<close>

text \<open>
  Claim C3, as the code has it. The store holds the key \<^verbatim>\<open>ab\<close>, which the glob \<^verbatim>\<open>a?\<close>
  matches; \<open>keys\<close> lists it for the pattern \<^verbatim>\<open>*\<close> and lists nothing for \<^verbatim>\<open>a?\<close>: a pattern
  without \<^verbatim>\<open>*\<close> never reaches the matcher.
\<close>

theorem question_mark_pattern_is_literal:
  "glob_match ''a?'' ''ab'' \<and>
   fst (keys fm_glob ''*'' 1 ab_store) = Inr [''ab''] \<and>
   fst (keys fm_glob ''a?'' 1 ab_store) = Inr []"
  by (simp add: ab_store_eq keys_def prune_expired_def expired_keys_def)

text \<open>
  Claim C3, amended. On a well-formed store, with a matcher that decides a pattern with
  a \<^verbatim>\<open>*\<close> in it as the specification's glob does, \<open>keys\<close> returns the live keys, in
  table order, that glob-match the pattern whenever the pattern contains a \<^verbatim>\<open>*\<close> or
  contains no \<^verbatim>\<open>?\<close> (for a pattern with neither, these are the keys equal to it); a
  pattern with a \<^verbatim>\<open>?\<close> and no \<^verbatim>\<open>*\<close> selects only the key equal to the pattern.
\<close>

theorem keys_glob_unless_bare_question_mark:
  assumes "wf_store s" "\<And>key. CHR ''*'' \<in> set pat \<Longrightarrow> fm key pat = glob_match pat key"
  shows "fst (keys fm pat now s) =
           Inr (filter (\<lambda>key. if CHR ''*'' \<in> set pat \<or> CHR ''?'' \<notin> set pat
                               then glob_match pat key else key = pat)
                  (map fst (db_data (snd (prune_expired now s)))))"
proof (cases "pat = ''*''")
  case True
  then show ?thesis using assms(1) by (simp add: keys_def prune_expired_wf glob_star)
next
  case False
  show ?thesis
  proof (cases "CHR ''*'' \<in> set pat")
    case True
    with False show ?thesis using assms by (simp add: keys_def prune_expired_wf)
  next
    case nostar: False
    show ?thesis
    proof (cases "CHR ''?'' \<in> set pat")
      case True
      with False nostar show ?thesis using assms(1) by (simp add: keys_def prune_expired_wf)
    next
      case noq: False
      have "glob_match pat key = (key = pat)" for key
        using nostar noq by (rule glob_literal)
      with False nostar noq show ?thesis using assms(1)
        by (simp add: keys_def prune_expired_wf)
    qed
  qed
qed

theorem keys_glob_unless_bare_question_mark_witness:
  "fst (keys fm_glob ''a*'' 1 ab_store) =
     Inr (filter (\<lambda>key. if CHR ''*'' \<in> set ''a*'' \<or> CHR ''?'' \<notin> set ''a*''
                         then glob_match ''a*'' key else key = ''a*'')
            (map fst (db_data (snd (prune_expired 1 ab_store)))))"
  using keys_glob_unless_bare_question_mark[of ab_store "''a*''" fm_glob 1]
  by (simp add: wf_ab_store fm_glob_def)

subsection \<open>C4: a load that fails\<close>

text \<open>
  Claim C4, on the code. The file holds an empty value table and an expiry for a key
  \<^verbatim>\<open>x\<close> that has passed. \<open>load_from_disk\<close> assigns the tables, the prune then raises
  \<^verbatim>\<open>KeyError\<close> on \<^verbatim>\<open>del self._data['x']\<close>, the call raises \<^verbatim>\<open>PocketDBDiskError\<close>, and
  the store has lost its entry and holds the file's expiry table.
\<close>

theorem load_failure_overwrites:
  "load_from_disk (Some ''f'') 1 ttl_store [''f'' \<mapsto> Backup [] (Some [(''x'', 0)]) None]
     = (Inl DiskError, ttl_store\<lparr>db_data := [], db_ttl := [(''x'', 0)]\<rparr>) \<and>
   db_data ttl_store = [(''k'', PStr ''v'')] \<and> db_ttl ttl_store = [(''k'', 1)]"
  by (simp add: ttl_store_eq load_from_disk_def prune_expired_def expired_keys_def dict_has_def)

subsection \<open>C5: get of an absent key\<close>

text \<open>
  Claim C5, as the code has it. The default \<^verbatim>\<open>None\<close> is how the method tells that no
  default was given: \<open>get\<close> of an absent key with the default \<^verbatim>\<open>None\<close> raises
  \<^verbatim>\<open>PocketDBKeyNotFoundError\<close>, it does not return \<^verbatim>\<open>None\<close>.
\<close>

theorem get_none_default_raises:
  "\<not> dict_has ''k'' (db_data (snd (prune_expired 0 (init ''db'')))) \<and>
   fst (get (PStr ''k'') PNone 0 (init ''db'')) = Inl KeyNotFound"
  by (simp add: get_def prune_expired_def expired_keys_def init_def strip_k dict_has_def)

text \<open>
  Claim C5, amended. On a well-formed store, for a valid key that is absent after the
  prune, \<open>get\<close> adds one to \<open>gets\<close> and one to \<open>misses\<close>, and returns the default when
  the default is not \<^verbatim>\<open>None\<close>; with the default \<^verbatim>\<open>None\<close>, given or left out, it raises
  \<^verbatim>\<open>PocketDBKeyNotFoundError\<close>.
\<close>

theorem get_absent_key:
  assumes "wf_store s" "strip k \<noteq> []" "\<not> dict_has k (db_data (snd (prune_expired now s)))"
  shows "fst (get (PStr k) d now s) = (if d = PNone then Inl KeyNotFound else Inr d) \<and>
         gets (db_stats (snd (get (PStr k) d now s))) = gets (db_stats s) + 1 \<and>
         misses (db_stats (snd (get (PStr k) d now s))) = misses (db_stats s) + 1"
proof -
  have "map_of (db_data (pruned now s)) k = None"
    using assms(1,3) by (simp add: prune_expired_wf dict_has_map_of)
  moreover have "gets (db_stats (pruned now s)) = gets (db_stats s)"
    "misses (db_stats (pruned now s)) = misses (db_stats s)"
    by (simp_all add: pruned_def)
  ultimately show ?thesis
    using assms(1,2) by (simp add: get_def prune_expired_wf Let_def count_miss_def)
qed

theorem get_absent_key_witness:
  "fst (get (PStr ''k'') (PInt 7) 0 (init ''db'')) = Inr (PInt 7) \<and>
   gets (db_stats (snd (get (PStr ''k'') (PInt 7) 0 (init ''db''))))
     = gets (db_stats (init ''db'')) + 1 \<and>
   misses (db_stats (snd (get (PStr ''k'') (PInt 7) 0 (init ''db''))))
     = misses (db_stats (init ''db'')) + 1"
proof -
  have absent: "\<not> dict_has ''k'' (db_data (snd (prune_expired 0 (init ''db''))))"
    by (simp add: prune_expired_def expired_keys_def init_def dict_has_def)
  from get_absent_key[OF wf_init strip_k absent, of "PInt 7"] show ?thesis by simp
qed

subsection \<open>C6: the sets counter\<close>

text \<open>
  Claim C6. After any sequence of public calls without a load on a new store, \<open>stats\<close>
  returns a report, and the report's \<open>sets\<close> is 0: no method writes that counter,
  \<open>set\<close> included.
\<close>

theorem sets_counter_never_moves:
  assumes "list_all (\<lambda>c. \<not> is_load (snd (snd c))) cs"
  shows "map_sum id r_sets (fst (stats now (fst (run fm cs (init name, dk))))) = Inr 0"
proof -
  let ?s = "fst (run fm cs (init name, dk))"
  have wf: "wf_store ?s" using assms by (intro wf_run) (simp_all add: wf_init)
  have "sets (db_stats ?s) = sets (db_stats (init name))"
    using assms sets_run[of "(init name, dk)" cs fm] by (simp add: wf_init)
  then have "sets (db_stats ?s) = 0" by (simp add: init_def)
  with wf show ?thesis by (simp add: stats_def prune_expired_wf Let_def)
qed

theorem sets_counter_never_moves_witness:
  "map_sum id r_sets (fst (stats 3 (fst (run fm_glob
      [(0, 0, Set (PStr ''a'') (PInt 1) PNone), (1, 1, Set (PStr ''b'') (PInt 2) (PInt 5)),
       (2, 2, Get (PStr ''a'') PNone)] (init ''db'', Map.empty))))) = Inr 0"
  using sets_counter_never_moves[of
      "[(0, 0, Set (PStr ''a'') (PInt 1) PNone), (1, 1, Set (PStr ''b'') (PInt 2) (PInt 5)),
        (2, 2, Get (PStr ''a'') PNone)]" 3 fm_glob "''db''" Map.empty]
  by simp

subsection \<open>C7: which calls prune first\<close>




subsection \<open>C8: expiry keys are value keys\<close>

text \<open>
  Claim C8. Every public call other than a load, run on any store whose expiry keys are
  value keys, leaves a store whose expiry keys are value keys, whether the call returns
  or raises; and so does every sequence of such calls on a new store.
\<close>

theorem expiry_keys_are_value_keys:
  "(ttl_in_data s \<and> \<not> is_load c \<longrightarrow> ttl_in_data (fst (snd (exec fm now now2 c s dk)))) \<and>
   (list_all (\<lambda>c. \<not> is_load (snd (snd c))) cs \<longrightarrow> ttl_in_data (fst (run fm cs (init name, dk))))"
proof (intro conjI impI)
  assume "ttl_in_data s \<and> \<not> is_load c"
  then show "ttl_in_data (fst (snd (exec fm now now2 c s dk)))" by (simp add: tid_exec)
next
  assume "list_all (\<lambda>c. \<not> is_load (snd (snd c))) cs"
  then show "ttl_in_data (fst (run fm cs (init name, dk)))"
    by (intro tid_run) (simp_all add: ttl_in_data_def init_def)
qed

theorem expiry_keys_are_value_keys_witness:
  "ttl_in_data (fst (snd (exec fm_glob 5 5 (Delete (PStr ''k'')) ttl_store Map.empty))) \<and>
   ttl_in_data (fst (run fm_glob
      [(0, 0, Set (PStr ''a'') (PInt 1) (PInt 5)), (1, 1, Set (PStr ''b'') (PInt 2) PNone),
       (2, 2, Delete (PStr ''b''))] (init ''db'', Map.empty)))"
  using expiry_keys_are_value_keys[of ttl_store "Delete (PStr ''k'')" fm_glob 5 5 Map.empty
      "[(0, 0, Set (PStr ''a'') (PInt 1) (PInt 5)), (1, 1, Set (PStr ''b'') (PInt 2) PNone),
        (2, 2, Delete (PStr ''b''))]" "''db''"]
  by (simp add: ttl_store_eq ttl_in_data_def)

subsection \<open>C9: a stored value is read back\<close>

text \<open>
  Claim C9. On a well-formed store, for a key that passes \<open>validate_key\<close> and a value
  that \<^verbatim>\<open>json.dumps\<close> accepts, \<open>set\<close> without a TTL returns \<open>True\<close>, and a \<open>get\<close> of
  the key on the store it leaves, at any later clock reading and with any default,
  returns that very value.
\<close>

theorem set_then_get:
  assumes "wf_store s" "strip k \<noteq> []" "json_dumps_ok val"
  shows "fst (set_db (PStr k) val PNone now now2 s) = Inr True \<and>
         fst (get (PStr k) d now' (snd (set_db (PStr k) val PNone now now2 s))) = Inr val"
proof -
  let ?p = "pruned now s"
  let ?s1 = "?p\<lparr>db_data := dict_set k val (db_data ?p), db_ttl := dict_del k (db_ttl ?p)\<rparr>"
  have set_eq: "set_db (PStr k) val PNone now now2 s = (Inr True, ?s1)"
    using assms by (intro set_db_no_ttl) simp_all
  have wf1: "wf_store ?s1"
    using assms(1) by (intro wf_after_set_no_ttl wf_pruned)
  have "k \<notin> set (expired_keys now' (db_ttl ?s1))"
    by (auto simp: expired_keys_def dict_del_def)
  then have "map_of (db_data (pruned now' ?s1)) k = Some val"
    by (simp add: pruned_def map_of_filter_notin map_of_dict_set)
  then have "fst (get (PStr k) d now' ?s1) = Inr val"
    using assms(2) wf1 by (simp add: get_def prune_expired_wf)
  with set_eq show ?thesis by simp
qed

theorem set_then_get_witness:
  "fst (set_db (PStr ''name'') (PStr ''Nigel'') PNone 0 0 (init ''demo'')) = Inr True \<and>
   fst (get (PStr ''name'') PNone 1
          (snd (set_db (PStr ''name'') (PStr ''Nigel'') PNone 0 0 (init ''demo''))))
     = Inr (PStr ''Nigel'')"
  using set_then_get[of "init ''demo''" "''name''" "PStr ''Nigel''" 0 0 PNone 1]
  by (simp add: wf_init strip_name)

subsection \<open>C10: save, then load\<close>

text \<open>
  Claim C10. On a well-formed store, a save whose write succeeds returns \<open>True\<close> and
  leaves the store as the prune left it; a load of the file it wrote, into a new store,
  returns \<open>True\<close>, and the loaded value table and expiry table are those of the saved
  store restricted to the keys live at the load's clock reading.
\<close>

theorem save_then_load:
  assumes "wf_store s"
  shows "(case save_to_disk (Some f) IoOk t1 s dk of
            (r, s1, dk1) \<Rightarrow>
              r = Inr True \<and> s1 = snd (prune_expired t1 s) \<and>
              (case load_from_disk (Some f) t2 (init name) dk1 of
                 (r', s2) \<Rightarrow>
                   r' = Inr True \<and>
                   db_data s2 = filter (\<lambda>p. live_at t2 (db_ttl s1) (fst p)) (db_data s1) \<and>
                   db_ttl s2 = filter (\<lambda>p. live_at t2 (db_ttl s1) (fst p)) (db_ttl s1)))"
proof -
  let ?s1 = "pruned t1 s"
  let ?l = "(init name)\<lparr>db_data := db_data ?s1, db_ttl := db_ttl ?s1, db_stats := db_stats ?s1\<rparr>"
  have wf1: "wf_store ?s1" using assms by (rule wf_pruned)
  then have wfl: "wf_store ?l" by (simp add: wf_store_def ttl_in_data_def)
  have d1: "distinct (map fst (db_ttl ?s1))" using wf1 by (simp add: wf_store_def)
  have save: "save_to_disk (Some f) IoOk t1 s dk =
                (Inr True, ?s1,
                 dk(f \<mapsto> Backup (db_data ?s1) (Some (db_ttl ?s1)) (Some (db_stats ?s1))))"
    using assms by (simp add: save_to_disk_def prune_expired_wf)
  have load: "load_from_disk (Some f) t2 (init name)
                (dk(f \<mapsto> Backup (db_data ?s1) (Some (db_ttl ?s1)) (Some (db_stats ?s1))))
              = (Inr True, pruned t2 ?l)"
    using wfl by (simp add: load_from_disk_def prune_expired_wf)
  have data: "db_data (pruned t2 ?l) = filter (\<lambda>p. live_at t2 (db_ttl ?s1) (fst p)) (db_data ?s1)"
    using d1 by (simp add: pruned_def[of t2] expired_keys_live)
  have ttl: "db_ttl (pruned t2 ?l) = filter (\<lambda>p. live_at t2 (db_ttl ?s1) (fst p)) (db_ttl ?s1)"
    using filter_live_ttl[OF d1, of t2] by (simp add: pruned_def[of t2])
  show ?thesis
    using assms data ttl by (simp add: save load prune_expired_wf)
qed

theorem save_then_load_witness:
  "(case save_to_disk (Some ''snap.pdb'') IoOk 0 ttl_store Map.empty of
      (r, s1, dk1) \<Rightarrow>
        r = Inr True \<and> s1 = snd (prune_expired 0 ttl_store) \<and>
        (case load_from_disk (Some ''snap.pdb'') 5 (init ''fresh'') dk1 of
           (r', s2) \<Rightarrow>
             r' = Inr True \<and>
             db_data s2 = filter (\<lambda>p. live_at 5 (db_ttl s1) (fst p)) (db_data s1) \<and>
             db_ttl s2 = filter (\<lambda>p. live_at 5 (db_ttl s1) (fst p)) (db_ttl s1)))"
  by (rule save_then_load[OF wf_ttl_store])

end
